theory Spec2Isabelle
  imports Complex_Main "HOL-Library.Sublist" "HOL-Library.Log_Nat"
begin

section \<open>Python string primitives used by the runners\<close>

text \<open>
  Python \<open>str\<close> values are modelled as \<open>string\<close> (lists of 8-bit characters), so the
  model covers ASCII text.
\<close>

text \<open>\<open>needle in hay\<close>: contiguous substring test.\<close>

fun py_in :: "string \<Rightarrow> string \<Rightarrow> bool" where
  "py_in needle [] = (needle = [])"
| "py_in needle (c # cs) = (prefix needle (c # cs) \<or> py_in needle cs)"

text \<open>\<open>str.lower()\<close> on ASCII letters; every other character is left as it is.\<close>

definition ascii_uppercase :: string where
  "ascii_uppercase = ''ABCDEFGHIJKLMNOPQRSTUVWXYZ''"

definition ascii_lowercase :: string where
  "ascii_lowercase = ''abcdefghijklmnopqrstuvwxyz''"

definition lower_char :: "char \<Rightarrow> char" where
  "lower_char c =
     (case map_of (zip ascii_uppercase ascii_lowercase) c of None \<Rightarrow> c | Some d \<Rightarrow> d)"

definition lower :: "string \<Rightarrow> string" where
  "lower s = map lower_char s"

text \<open>
  \<open>str.split(sep)\<close> for a separator that is not empty (Python raises \<open>ValueError\<close> on an
  empty one; the runners only pass the literals \<open>'\n'\<close> and \<open>'available at '\<close>): the
  pieces between the non-overlapping occurrences of \<open>sep\<close>, found from the left.
\<close>

fun split_from :: "string \<Rightarrow> string \<Rightarrow> string \<Rightarrow> string list" where
  "split_from sep piece [] = [piece]"
| "split_from sep piece (c # cs) =
     (if prefix sep (c # cs) then piece # split_from sep [] (drop (length sep - 1) cs)
      else split_from sep (piece @ [c]) cs)"

definition py_split :: "string \<Rightarrow> string \<Rightarrow> string list" where
  "py_split sep s = split_from sep [] s"

definition nl :: string where
  "nl = [CHR 0x0A]"

text \<open>
  \<open>str.strip()\<close>: drops the ASCII characters for which \<open>str.isspace\<close> holds (tab, line
  feed, vertical tab, form feed, carriage return, the separators 0x1C to 0x1F and space)
  from both ends.
\<close>

definition whitespace :: string where
  "whitespace = [CHR 0x09, CHR 0x0A, CHR 0x0B, CHR 0x0C, CHR 0x0D,
                 CHR 0x1C, CHR 0x1D, CHR 0x1E, CHR 0x1F, CHR 0x20]"

definition isspace :: "char \<Rightarrow> bool" where
  "isspace c = (c \<in> set whitespace)"

definition py_strip :: "string \<Rightarrow> string" where
  "py_strip s = rev (dropWhile isspace (rev (dropWhile isspace s)))"

text \<open>
  The partial output attached to \<open>subprocess.TimeoutExpired\<close>: absent (\<open>None\<close>), text, or
  bytes. CPython on POSIX attaches the bytes read so far even under \<open>text=True\<close>, and
  \<open>None\<close> when nothing was read; on Windows it attaches text.
\<close>

datatype captured = NoOutput | Text string | Bytes string

text \<open>\<open>x or ""\<close>: the empty text for \<open>None\<close> and for an empty value.\<close>

definition or_empty :: "captured \<Rightarrow> captured" where
  "or_empty v =
     (case v of
        NoOutput \<Rightarrow> Text []
      | Text s \<Rightarrow> Text s
      | Bytes b \<Rightarrow> (if b = [] then Text [] else Bytes b))"

text \<open>\<open>str(b)\<close> for bytes, as an f-string formats them: \<open>b'...'\<close> with escapes.\<close>

definition hex_digits :: string where
  "hex_digits = ''0123456789abcdef''"

definition bytes_repr_char :: "char \<Rightarrow> char \<Rightarrow> string" where
  "bytes_repr_char quote c =
     (let n = (of_char c :: nat)
      in if c = quote \<or> c = CHR 0x5C then [CHR 0x5C, c]
         else if c = CHR 0x09 then [CHR 0x5C, CHR ''t'']
         else if c = CHR 0x0A then [CHR 0x5C, CHR ''n'']
         else if c = CHR 0x0D then [CHR 0x5C, CHR ''r'']
         else if n < 32 \<or> 127 \<le> n
           then [CHR 0x5C, CHR ''x'', hex_digits ! (n div 16), hex_digits ! (n mod 16)]
         else [c])"

definition bytes_repr :: "string \<Rightarrow> string" where
  "bytes_repr b =
     (let quote = (if CHR 0x27 \<in> set b \<and> CHR 0x22 \<notin> set b then CHR 0x22 else CHR 0x27)
      in [CHR ''b'', quote] @ concat (map (bytes_repr_char quote) b) @ [quote])"

definition py_str :: "captured \<Rightarrow> string" where
  "py_str v = (case v of NoOutput \<Rightarrow> ''None'' | Text s \<Rightarrow> s | Bytes b \<Rightarrow> bytes_repr b)"

text \<open>\<open>str(n)\<close> for an integer, in decimal.\<close>

fun str_nat :: "nat \<Rightarrow> string" where
  "str_nat n =
     (if n < 10 then [''0123456789'' ! n] else str_nat (n div 10) @ [''0123456789'' ! (n mod 10)])"

definition str_int :: "int \<Rightarrow> string" where
  "str_int i = (if i < 0 then CHR ''-'' # str_nat (nat (- i)) else str_nat (nat i))"

text \<open>
  \<open>shlex.quote\<close>: the empty string becomes \<open>''\<close>; a string of safe characters
  (\<open>[A-Za-z0-9_@%+=:,./-]\<close>) is returned as it is; any other string is put in single
  quotes, each single quote inside it written as \<open>'"'"'\<close>.
\<close>

definition sq :: char where
  "sq = CHR 0x27"

definition dq :: char where
  "dq = CHR 0x22"

definition safe_char :: "char \<Rightarrow> bool" where
  "safe_char c = (c \<in> set (ascii_lowercase @ ascii_uppercase @ ''0123456789_@%+=:,./-''))"

definition quote_char :: "char \<Rightarrow> string" where
  "quote_char c = (if c = sq then [sq, dq, sq, dq, sq] else [c])"

definition shlex_quote :: "string \<Rightarrow> string" where
  "shlex_quote s =
     (if s = [] then [sq, sq]
      else if list_all safe_char s then s
      else [sq] @ concat (map quote_char s) @ [sq])"

text \<open>\<open>dict.get(key, default)\<close> on a key that may be absent.\<close>

definition dict_get :: "'a \<Rightarrow> 'a option \<Rightarrow> 'a" where
  "dict_get d v = (case v of None \<Rightarrow> d | Some x \<Rightarrow> x)"

section \<open>Python floats\<close>

text \<open>
  A Python float is an IEEE 754 binary64 number. Its value is a rational, and every
  arithmetic operation returns the exact result rounded to the nearest number with a
  53-bit significand, ties to the even significand. The exponent range is not bounded
  in the model: no overflow to infinity and no subnormal numbers, which the values of
  the runners (scores between 0 and 1, file sizes) never reach.
\<close>

definition round_half_even :: "rat \<Rightarrow> int" where
  "round_half_even r =
     (let f = \<lfloor>r\<rfloor>; d = r - of_int f
      in if d < 1 / 2 then f else if 1 / 2 < d then f + 1 else if even f then f else f + 1)"

text \<open>The binary exponent of a positive rational: \<open>2 ^ expo x \<le> x < 2 ^ (expo x + 1)\<close>.\<close>

definition expo :: "rat \<Rightarrow> int" where
  "expo x =
     (let d = bitlen (fst (quotient_of x)) - bitlen (snd (quotient_of x))
      in if 2 powi d \<le> x then d else d - 1)"

text \<open>Rounding to binary64; a float literal such as \<open>0.4\<close> denotes \<open>fl (4 / 10)\<close>.\<close>

definition fl :: "rat \<Rightarrow> rat" where
  "fl x =
     (if x = 0 then 0
      else (let a = \<bar>x\<bar>; ulp = 2 powi (expo a - 52)
            in sgn x * of_int (round_half_even (a / ulp)) * ulp))"

definition fadd :: "rat \<Rightarrow> rat \<Rightarrow> rat" where
  "fadd x y = fl (x + y)"

definition fmul :: "rat \<Rightarrow> rat \<Rightarrow> rat" where
  "fmul x y = fl (x * y)"

text \<open>\<open>a / b\<close> on two integers: the quotient, correctly rounded.\<close>

definition int_truediv :: "int \<Rightarrow> int \<Rightarrow> rat" where
  "int_truediv a b = fl (of_int a / of_int b)"

text \<open>\<open>int(x)\<close> on a float: truncation towards zero.\<close>

definition py_int :: "rat \<Rightarrow> int" where
  "py_int x = (if 0 \<le> x then \<lfloor>x\<rfloor> else \<lceil>x\<rceil>)"

section \<open>Quality scorer (evals/quality/runner.py)\<close>

record challenge =
  command :: "string option"
  expected_issue :: "string option"
  expected_solution :: "string option"
  key_phrases :: "string list option"

record evaluation =
  can_solve :: bool
  quality_score :: rat
  issue_found :: bool
  solution_found :: bool
  phrase_coverage :: rat
  phrases_found :: nat
  total_phrases :: nat

definition evaluate_summary_quality :: "string \<Rightarrow> challenge \<Rightarrow> evaluation" where
  "evaluate_summary_quality summary ch =
     (let issue = lower (dict_get [] (expected_issue ch));
          solution = lower (dict_get [] (expected_solution ch));
          phrases = dict_get [] (key_phrases ch);
          summary_lower = lower summary;
          i_found = (if issue \<noteq> [] then py_in issue summary_lower else True);
          s_found = (if solution \<noteq> [] then py_in solution summary_lower else True);
          p_found = length (filter (\<lambda>phrase. py_in (lower phrase) summary_lower) phrases);
          coverage = (if phrases \<noteq> []
                      then int_truediv (int p_found) (int (length phrases)) else 1);
          score0 = (0::rat);
          score1 = (if i_found then fadd score0 (fl (4 / 10)) else score0);
          score2 = (if s_found then fadd score1 (fl (4 / 10)) else score1);
          score = fadd score2 (fmul coverage (fl (2 / 10)))
      in \<lparr>can_solve = (score \<ge> fl (7 / 10)),
          quality_score = score,
          issue_found = i_found,
          solution_found = s_found,
          phrase_coverage = coverage,
          phrases_found = p_found,
          total_phrases = length phrases\<rparr>)"

section \<open>Invoking the subject CLI\<close>

text \<open>
  \<open>subprocess.run\<close> either returns a completed process or raises. The outside world is
  a function \<open>sh\<close> from the command lines executed so far and the command line to execute
  to what happens; the state threaded through the runners is the list of command lines
  executed. The working directory and the wall clock are not modelled.
\<close>

record completed_process =
  stdout :: string
  stderr :: string
  returncode :: int

datatype py_exception =
    TimeoutExpired captured captured
  | TypeError
  | OtherException string

type_synonym shell = "string list \<Rightarrow> string \<Rightarrow> py_exception + completed_process"

definition subprocess_run ::
  "shell \<Rightarrow> string \<Rightarrow> string list \<Rightarrow> (py_exception + completed_process) \<times> string list" where
  "subprocess_run sh cmdline hist = (sh hist cmdline, hist @ [cmdline])"

definition cg_command :: "string \<Rightarrow> bool \<Rightarrow> string \<Rightarrow> string" where
  "cg_command config_file use_force cmd =
     (let force_flag = (if use_force then ''--force-summary'' else [])
      in py_strip (''cg -c '' @ shlex_quote config_file @ '' '' @ force_flag @ '' '' @ cmd))"

definition execute ::
  "shell \<Rightarrow> string \<Rightarrow> string \<Rightarrow> bool \<Rightarrow> string list
     \<Rightarrow> (py_exception + completed_process) \<times> string list" where
  "execute sh config_file cmd use_force hist =
     subprocess_run sh (cg_command config_file use_force cmd) hist"

text \<open>The test both runners make on the first attempt's output before retrying.\<close>

definition flag_rejected :: "string \<Rightarrow> string \<Rightarrow> bool" where
  "flag_rejected out err =
     (let combined = lower (out @ nl @ err)
      in py_in (''unexpected argument '' @ [sq] @ ''--force-summary'' @ [sq]) combined
         \<or> py_in ''--force-summary'' combined)"

subsection \<open>Response classifier (evals/quality/runner.py, run_command)\<close>

fun find_output_file :: "string list \<Rightarrow> string option" where
  "find_output_file [] = None"
| "find_output_file (line # rest) =
     (if py_in ''complete output is available at'' line
      then (let parts = py_split ''available at '' line
            in if length parts > 1 then Some (py_strip (parts ! 1)) else None)
      else find_output_file rest)"

definition extract_output_file :: "string \<Rightarrow> string option" where
  "extract_output_file out = find_output_file (py_split nl out)"

definition detect_raw_output :: "string \<Rightarrow> bool" where
  "detect_raw_output out =
     (let summary_lower = lower out
      in py_in ''output shorter than'' summary_lower
         \<and> py_in ''returning raw output'' summary_lower)"

record quality_result =
  q_stdout :: string
  q_exit_code :: int
  output_file :: "string option"
  used_raw_output :: bool

definition classify :: "string \<Rightarrow> int \<Rightarrow> quality_result" where
  "classify out code =
     \<lparr>q_stdout = out, q_exit_code = code,
      output_file = extract_output_file out,
      used_raw_output = detect_raw_output out\<rparr>"

subsection \<open>run_command of evals/quality/runner.py\<close>

text \<open>
  \<open>(e.stdout or "") + "\n" + (e.stderr or "")\<close>: text parts are concatenated; a part
  that is bytes makes the addition raise \<open>TypeError\<close>.
\<close>

definition timeout_output :: "captured \<Rightarrow> captured \<Rightarrow> py_exception + string" where
  "timeout_output po pe =
     (case (or_empty po, or_empty pe) of
        (Text a, Text b) \<Rightarrow> Inr (a @ nl @ b)
      | _ \<Rightarrow> Inl TypeError)"

text \<open>
  The first attempt as the runner records it: a timeout is caught and turned into exit
  code 124 with the partial output; any other exception leaves \<open>run_command\<close>.
\<close>

definition quality_first_attempt ::
  "py_exception + completed_process \<Rightarrow> py_exception + completed_process" where
  "quality_first_attempt r =
     (case r of
        Inr p \<Rightarrow> Inr p
      | Inl (TimeoutExpired po pe) \<Rightarrow>
          (case timeout_output po pe of
             Inl exn \<Rightarrow> Inl exn
           | Inr out \<Rightarrow> Inr \<lparr>stdout = out, stderr = [], returncode = 124\<rparr>)
      | Inl exn \<Rightarrow> Inl exn)"

definition quality_run_command ::
  "shell \<Rightarrow> string \<Rightarrow> string \<Rightarrow> bool \<Rightarrow> string list
     \<Rightarrow> (py_exception + quality_result) \<times> string list" where
  "quality_run_command sh config_file cmd force_summary hist =
     (case execute sh config_file cmd force_summary hist of
        (r1, log1) \<Rightarrow>
          (case quality_first_attempt r1 of
             Inl exn \<Rightarrow> (Inl exn, log1)
           | Inr p1 \<Rightarrow>
               if returncode p1 \<noteq> 0 \<and> force_summary \<and> flag_rejected (stdout p1) (stderr p1)
               then (case execute sh config_file cmd False log1 of
                       (Inl exn, log2) \<Rightarrow> (Inl exn, log2)
                     | (Inr p2, log2) \<Rightarrow> (Inr (classify (stdout p2) (returncode p2)), log2))
               else (Inr (classify (stdout p1) (returncode p1)), log1)))"

subsection \<open>run_command and write_test_file of evals/speed/runner.py\<close>

record speed_result =
  s_stdout :: string
  s_exit_code :: int

definition timeout_message :: "int \<Rightarrow> captured \<Rightarrow> captured \<Rightarrow> string" where
  "timeout_message timeout po pe =
     ''Command timed out after '' @ str_int timeout @ ''s. stdout: '' @ py_str (or_empty po)
       @ '' stderr: '' @ py_str (or_empty pe)"

definition speed_run_command ::
  "shell \<Rightarrow> string \<Rightarrow> string \<Rightarrow> int \<Rightarrow> bool \<Rightarrow> string list
     \<Rightarrow> (py_exception + speed_result) \<times> string list" where
  "speed_run_command sh config_file cmd timeout force_summary hist =
     (case execute sh config_file cmd force_summary hist of
        (Inl (TimeoutExpired po pe), log1) \<Rightarrow>
          (Inr \<lparr>s_stdout = timeout_message timeout po pe, s_exit_code = 124\<rparr>, log1)
      | (Inl exn, log1) \<Rightarrow> (Inl exn, log1)
      | (Inr p1, log1) \<Rightarrow>
          if returncode p1 \<noteq> 0 \<and> force_summary \<and> flag_rejected (stdout p1) (stderr p1)
          then (case execute sh config_file cmd False log1 of
                  (Inl exn, log2) \<Rightarrow> (Inl exn, log2)
                | (Inr p2, log2) \<Rightarrow>
                    (Inr \<lparr>s_stdout = stdout p2, s_exit_code = returncode p2\<rparr>, log2))
          else (Inr \<lparr>s_stdout = stdout p1, s_exit_code = returncode p1\<rparr>, log1))"

text \<open>The text \<open>write_test_file\<close> writes; \<open>"a" * size\<close> is empty for a size below 1.\<close>

definition write_test_file :: "int \<Rightarrow> rat \<Rightarrow> string" where
  "write_test_file max_tokens size_factor =
     (let size = py_int (fmul size_factor (fl (of_int max_tokens)))
      in replicate (nat size) CHR ''a'')"

section \<open>One challenge of run_quality_evaluation\<close>

text \<open>Lines 208 to 223: the evaluation and the needs-full-output flag of a response.\<close>

definition score_response :: "quality_result \<Rightarrow> challenge \<Rightarrow> evaluation \<times> bool" where
  "score_response r ch =
     (if used_raw_output r
      then (\<lparr>can_solve = False, quality_score = 0, issue_found = False,
             solution_found = False, phrase_coverage = 0, phrases_found = 0,
             total_phrases = length (dict_get [] (key_phrases ch))\<rparr>, True)
      else (let ev = evaluate_summary_quality (q_stdout r) ch
            in (ev, quality_score ev < fl (5 / 10))))"

record result_row =
  row_model :: string
  row_config_file :: string
  row_challenge :: string
  row_can_solve :: bool
  row_needs_full_output :: bool
  row_quality_score :: rat
  row_exit_code :: int
  row_summary :: string

definition summary_clean :: "string \<Rightarrow> string" where
  "summary_clean s =
     take 500 (map (\<lambda>c. if c = CHR '','' then CHR '';'' else c)
                (map (\<lambda>c. if c = CHR 0x0A then CHR '' '' else c) s))"

text \<open>
  The body of the challenge loop: a challenge without a command is skipped, an exception
  of \<open>run_command\<close> is caught and logged, and otherwise one row is written.
\<close>

definition quality_step ::
  "shell \<Rightarrow> string \<Rightarrow> string \<Rightarrow> string \<Rightarrow> string \<Rightarrow> challenge \<Rightarrow> string list
     \<Rightarrow> result_row option \<times> string list" where
  "quality_step sh model_name config_file config_path_full challenge_name ch hist =
     (let cmd = dict_get [] (command ch)
      in if cmd = [] then (None, hist)
         else (case quality_run_command sh config_path_full cmd True hist of
                 (Inl exn, hist2) \<Rightarrow> (None, hist2)
               | (Inr r, hist2) \<Rightarrow>
                   (case score_response r ch of
                      (ev, needs_full_output) \<Rightarrow>
                        (Some \<lparr>row_model = model_name, row_config_file = config_file,
                               row_challenge = challenge_name,
                               row_can_solve = can_solve ev,
                               row_needs_full_output = needs_full_output,
                               row_quality_score = quality_score ev,
                               row_exit_code = q_exit_code r,
                               row_summary = summary_clean (q_stdout r)\<rparr>, hist2))))"

section \<open>How the shell reads a command line\<close>

text \<open>
  Both runners hand the command line to \<open>sh -c\<close>. The shell is not part of the
  repository; the model below follows the token recognition rules of the POSIX shell
  (XCU 2.2 and 2.3), reading a command line from the left until a given number of tokens
  is complete:
  \<^item> blanks separate tokens; an operator character ends a word, and the longest operator
    that starts there is one token; a word of digits in front of \<open><\<close> or \<open>>\<close> is an IO
    number;
  \<^item> single quotes keep every character; double quotes keep every character other
    than dollar, backquote and backslash; a backslash keeps the next character, and a
    backslash in front of a line feed is dropped with it;
  \<^item> \<open>#\<close> at the start of a token opens a comment up to the end of the line.
  A \<open>Word\<close> holds the text after quote removal. The reading is \<open>Unterminated\<close> when
  a quote is still open at the end, which the shell reports as a syntax error, and
  \<open>Beyond\<close> when a token read needs what the model does not cover: an expansion
  (unquoted dollar, backquote, \<open>* ? [ ~ { } !\<close>) or a here-document. Input after the last
  token asked for is not looked at, and is returned as it is.
\<close>

datatype sh_token = Word string | IoNumber string | Op string

datatype 'a reading = Read 'a | Unterminated | Beyond

datatype sh_mode = Unquoted | InSingle | InDouble | InComment

definition blank :: string where
  "blank = [CHR 0x20, CHR 0x09]"

definition backslash :: char where
  "backslash = CHR 0x5C"

definition backquote :: char where
  "backquote = CHR 0x60"

definition operators :: "string list" where
  "operators = [''<<-'', ''&&'', ''||'', '';;'', ''<<'', ''>>'', ''<&'', ''>&'', ''<>'', ''>|'',
                ''&'', ''|'', '';'', ''<'', ''>'', ''('', '')'', [CHR 0x0A]]"

definition operator_start :: string where
  "operator_start = [CHR 0x0A, CHR '';'', CHR ''&'', CHR ''|'', CHR ''<'', CHR ''>'',
                     CHR ''('', CHR '')'']"

definition expansion_chars :: string where
  "expansion_chars = [CHR ''$'', CHR 0x60, CHR ''*'', CHR ''?'', CHR ''['', CHR ''~'',
                      CHR ''{'', CHR ''}'', CHR ''!'']"

definition decimal_digits :: string where
  "decimal_digits = ''0123456789''"

text \<open>
  The word in progress: its text after quote removal, and whether every character of it
  was unquoted.
\<close>

type_synonym sh_word = "(string \<times> bool) option"

definition word_of :: "sh_word \<Rightarrow> string" where
  "word_of cur = (case cur of None \<Rightarrow> [] | Some (w, p) \<Rightarrow> w)"

definition plain_of :: "sh_word \<Rightarrow> bool" where
  "plain_of cur = (case cur of None \<Rightarrow> True | Some (w, p) \<Rightarrow> p)"

definition add_plain :: "sh_word \<Rightarrow> char \<Rightarrow> sh_word" where
  "add_plain cur c = Some (word_of cur @ [c], plain_of cur)"

definition add_quoted :: "sh_word \<Rightarrow> string \<Rightarrow> sh_word" where
  "add_quoted cur s = Some (word_of cur @ s, False)"

definition flush :: "sh_word \<Rightarrow> sh_token list" where
  "flush cur = (case cur of None \<Rightarrow> [] | Some (w, p) \<Rightarrow> [Word w])"

text \<open>The token a word in progress becomes when the operator character \<open>c\<close> ends it.\<close>

definition flush_before :: "char \<Rightarrow> sh_word \<Rightarrow> sh_token list" where
  "flush_before c cur =
     (case cur of
        None \<Rightarrow> []
      | Some (w, p) \<Rightarrow>
          if (c = CHR ''<'' \<or> c = CHR ''>'') \<and> p \<and> w \<noteq> []
             \<and> list_all (\<lambda>d. d \<in> set decimal_digits) w
          then [IoNumber w] else [Word w])"

definition longest_operator :: "string \<Rightarrow> string" where
  "longest_operator s = (case find (\<lambda>op. prefix op s) operators of None \<Rightarrow> [] | Some op \<Rightarrow> op)"

fun sh_read ::
  "nat \<Rightarrow> sh_mode \<Rightarrow> sh_word \<Rightarrow> sh_token list \<Rightarrow> string \<Rightarrow> (sh_token list \<times> string) reading" where
  "sh_read n Unquoted cur toks [] = Read (toks @ flush cur, [])"
| "sh_read n InComment cur toks [] = Read (toks, [])"
| "sh_read n InSingle cur toks [] = Unterminated"
| "sh_read n InDouble cur toks [] = Unterminated"
| "sh_read n InSingle cur toks (c # cs) =
     (if c = sq then sh_read n Unquoted cur toks cs
      else sh_read n InSingle (add_quoted cur [c]) toks cs)"
| "sh_read n InDouble cur toks (c # cs) =
     (if c = dq then sh_read n Unquoted cur toks cs
      else if c = CHR ''$'' \<or> c = backquote then Beyond
      else if c = backslash then
        (case cs of
           [] \<Rightarrow> Unterminated
         | d # ds \<Rightarrow>
             if d = CHR ''$'' \<or> d = backquote \<or> d = dq \<or> d = backslash
             then sh_read n InDouble (add_quoted cur [d]) toks ds
             else if d = CHR 0x0A then sh_read n InDouble cur toks ds
             else sh_read n InDouble (add_quoted cur [c]) toks cs)
      else sh_read n InDouble (add_quoted cur [c]) toks cs)"
| "sh_read n InComment cur toks (c # cs) =
     (if c = CHR 0x0A then sh_read n Unquoted None (toks @ [Op [c]]) cs
      else sh_read n InComment cur toks cs)"
| "sh_read n Unquoted cur toks (c # cs) =
     (if cur = None \<and> n \<le> length toks then Read (toks, c # cs)
      else if c = sq then sh_read n InSingle (add_quoted cur []) toks cs
      else if c = dq then sh_read n InDouble (add_quoted cur []) toks cs
      else if c = backslash then
        (case cs of
           [] \<Rightarrow> Beyond
         | d # ds \<Rightarrow>
             if d = CHR 0x0A then sh_read n Unquoted cur toks ds
             else sh_read n Unquoted (add_quoted cur [d]) toks ds)
      else if c \<in> set blank then sh_read n Unquoted None (toks @ flush cur) cs
      else if c \<in> set operator_start then
        (if n \<le> length (toks @ flush_before c cur)
         then Read (toks @ flush_before c cur, c # cs)
         else if longest_operator (c # cs) = ''<<'' \<or> longest_operator (c # cs) = ''<<-''
         then Beyond
         else sh_read n Unquoted None
                (toks @ flush_before c cur @ [Op (longest_operator (c # cs))])
                (drop (length (longest_operator (c # cs)) - 1) cs))
      else if c = CHR ''#'' \<and> cur = None then sh_read n InComment None toks cs
      else if c \<in> set expansion_chars then Beyond
      else sh_read n Unquoted (add_plain cur c) toks cs)"

text \<open>The first \<open>n\<close> tokens of a command line, and the input after them.\<close>

definition sh_tokens :: "nat \<Rightarrow> string \<Rightarrow> (sh_token list \<times> string) reading" where
  "sh_tokens n cmdline = sh_read n Unquoted None [] cmdline"

section \<open>Example inputs\<close>

text \<open>The challenge of the specification's example.\<close>

definition build_challenge :: challenge where
  "build_challenge =
     \<lparr>command = Some ''npm run build'', expected_issue = Some ''build failed'',
      expected_solution = Some ''missing dependency'',
      key_phrases = Some [''npm install'', ''ENOENT'']\<rparr>"

text \<open>
  A scripted world: the n-th process started ends as the n-th entry of the script says,
  and every later one completes with empty output and exit code 0.
\<close>

definition scripted :: "(py_exception + completed_process) list \<Rightarrow> shell" where
  "scripted script hist cmdline =
     (if length hist < length script then script ! length hist
      else Inr \<lparr>stdout = [], stderr = [], returncode = 0\<rparr>)"

definition raw_passthrough :: string where
  "raw_passthrough =
     ''Output shorter than 2000 tokens, returning raw output. Build failed: ''
       @ ''missing dependency, ENOENT, run npm install''"

text \<open>The diagnostic of a cg build that does not know the force flag.\<close>

definition unsupported_flag_error :: string where
  "unsupported_flag_error =
     ''error: unexpected argument '' @ [sq] @ ''--force-summary'' @ [sq] @ '' found''"

section \<open>Properties of float rounding\<close>

lemma round_half_even_bounds:
  "\<lfloor>r\<rfloor> \<le> round_half_even r" "round_half_even r \<le> \<lfloor>r\<rfloor> + 1"
  by (simp_all add: round_half_even_def Let_def)

lemma round_half_even_ge:
  assumes "of_int n \<le> r"
  shows "n \<le> round_half_even r"
proof -
  from assms have "n \<le> \<lfloor>r\<rfloor>"
    by (simp add: le_floor_iff)
  also have "\<dots> \<le> round_half_even r"
    by (rule round_half_even_bounds(1))
  finally show ?thesis .
qed

lemma round_half_even_le:
  assumes "r \<le> of_int n"
  shows "round_half_even r \<le> n"
proof (cases "\<lfloor>r\<rfloor> < n")
  case True
  with round_half_even_bounds(2) [of r] show ?thesis by simp
next
  case False
  with assms have "r = of_int n"
    by (metis floor_less_iff floor_of_int linorder_not_less order_antisym)
  then show ?thesis by (simp add: round_half_even_def)
qed

lemma round_half_even_mono:
  assumes "r \<le> s"
  shows "round_half_even r \<le> round_half_even s"
proof (cases "\<lfloor>r\<rfloor> < \<lfloor>s\<rfloor>")
  case True
  with round_half_even_bounds(2) [of r] round_half_even_bounds(1) [of s] show ?thesis
    by simp
next
  case False
  with assms have "\<lfloor>r\<rfloor> = \<lfloor>s\<rfloor>"
    by (simp add: floor_mono order_antisym)
  with assms show ?thesis
    by (auto simp: round_half_even_def Let_def)
qed

lemma powi_2_ratio: "(2::rat) powi a / 2 powi b = 2 powi (a - b)"
  by (simp add: power_int_diff)

lemma powi_2_mult: "(2::rat) powi a * 2 powi b = 2 powi (a + b)"
  by (simp add: power_int_add)

lemma bitlen_powi:
  assumes "0 < n"
  shows "(2::rat) powi (bitlen n - 1) \<le> of_int n" "of_int n < (2::rat) powi bitlen n"
proof -
  from assms have b: "1 \<le> bitlen n"
    by (simp add: bitlen_alt_def)
  from bitlen_bounds [OF assms] have lo: "2 ^ nat (bitlen n - 1) \<le> n"
    and hi: "n < 2 ^ nat (bitlen n)"
    by simp_all
  from lo have "(of_int (2 ^ nat (bitlen n - 1)) :: rat) \<le> of_int n"
    by (simp only: of_int_le_iff)
  with b show "(2::rat) powi (bitlen n - 1) \<le> of_int n"
    by (simp add: power_int_def)
  from hi have "(of_int n :: rat) < of_int (2 ^ nat (bitlen n))"
    by (simp only: of_int_less_iff)
  with b show "of_int n < (2::rat) powi bitlen n"
    by (simp add: power_int_def)
qed

lemma expo_bounds:
  assumes "0 < x"
  shows "2 powi expo x \<le> x" "x < 2 powi (expo x + 1)"
proof -
  obtain p q where pq: "quotient_of x = (p, q)"
    by (cases "quotient_of x")
  then have q: "0 < q" and x: "x = of_int p / of_int q"
    by (simp_all add: quotient_of_denom_pos quotient_of_div)
  with assms have p: "0 < p"
    by (simp add: zero_less_divide_iff)
  let ?d = "bitlen p - bitlen q"
  have "x < 2 powi bitlen p / 2 powi (bitlen q - 1)"
    unfolding x using bitlen_powi [OF p] bitlen_powi [OF q] p q
    by (intro frac_less) simp_all
  also have "\<dots> = 2 powi (bitlen p - (bitlen q - 1))"
    by (rule powi_2_ratio)
  also have "bitlen p - (bitlen q - 1) = ?d + 1"
    by simp
  finally have hi: "x < 2 powi (?d + 1)" .
  have "2 powi (bitlen p - 1) / 2 powi bitlen q < x"
    unfolding x using bitlen_powi [OF p] bitlen_powi [OF q] p q
    by (intro frac_less2) simp_all
  moreover have "2 powi (bitlen p - 1) / 2 powi bitlen q = (2::rat) powi (?d - 1)"
    by (simp add: power_int_diff)
  ultimately have lo: "2 powi (?d - 1) < x"
    by simp
  have e: "expo x = (if 2 powi ?d \<le> x then ?d else ?d - 1)"
    by (simp add: expo_def pq)
  show "2 powi expo x \<le> x"
    using lo by (simp add: e)
  show "x < 2 powi (expo x + 1)"
    using hi by (auto simp: e)
qed

lemma fl_pos:
  assumes "0 < x"
  shows "fl x = of_int (round_half_even (x / 2 powi (expo x - 52))) * 2 powi (expo x - 52)"
  using assms by (simp add: fl_def Let_def)

lemma fl_pos_bounds:
  assumes "0 < x"
  shows "2 powi expo x \<le> fl x" "fl x \<le> 2 powi (expo x + 1)"
proof -
  let ?u = "(2::rat) powi (expo x - 52)"
  let ?m = "round_half_even (x / ?u)"
  have u: "0 < ?u" by simp
  have "2 powi expo x / ?u \<le> x / ?u"
    using expo_bounds(1) [OF assms] u by (simp add: divide_right_mono)
  moreover have "2 powi expo x / ?u = (2::rat) ^ 52"
    by (simp add: power_int_diff)
  ultimately have "of_int (2 ^ 52) \<le> x / ?u"
    by simp
  then have "2 ^ 52 \<le> ?m"
    by (rule round_half_even_ge)
  then have "(of_int (2 ^ 52) :: rat) \<le> of_int ?m"
    by (simp only: of_int_le_iff)
  then have lo: "(2::rat) ^ 52 \<le> of_int ?m"
    by simp
  have "2 powi expo x = 2 ^ 52 * ?u"
    by (simp add: power_int_diff)
  also have "\<dots> \<le> of_int ?m * ?u"
    using lo u by (rule mult_right_mono [OF _ less_imp_le])
  finally show "2 powi expo x \<le> fl x"
    by (simp add: fl_pos [OF assms])
  have "x / ?u \<le> 2 powi (expo x + 1) / ?u"
    using expo_bounds(2) [OF assms] u by (simp add: divide_right_mono)
  moreover have "2 powi (expo x + 1) / ?u = (2::rat) ^ 53"
  proof -
    have "2 powi (expo x + 1) / ?u = (2::rat) powi (expo x + 1 - (expo x - 52))"
      by (rule powi_2_ratio)
    also have "expo x + 1 - (expo x - 52) = 53"
      by simp
    finally show ?thesis by simp
  qed
  ultimately have "x / ?u \<le> of_int (2 ^ 53)"
    by simp
  then have "?m \<le> 2 ^ 53"
    by (rule round_half_even_le)
  then have "(of_int ?m :: rat) \<le> of_int (2 ^ 53)"
    by (simp only: of_int_le_iff)
  then have hi: "of_int ?m \<le> (2::rat) ^ 53"
    by simp
  have "of_int ?m * ?u \<le> 2 ^ 53 * ?u"
    using hi u by (rule mult_right_mono [OF _ less_imp_le])
  also have "2 ^ 53 * ?u = 2 powi 53 * ?u"
    by simp
  also have "\<dots> = 2 powi (53 + (expo x - 52))"
    by (rule powi_2_mult)
  also have "53 + (expo x - 52) = expo x + 1"
    by simp
  finally show "fl x \<le> 2 powi (expo x + 1)"
    by (simp add: fl_pos [OF assms])
qed

lemma fl_mono_pos:
  assumes "0 < x" and "x \<le> y"
  shows "fl x \<le> fl y"
proof -
  from assms have y: "0 < y" by simp
  have "2 powi expo x \<le> x" by (rule expo_bounds(1) [OF assms(1)])
  also note assms(2)
  also have "y < 2 powi (expo y + 1)" by (rule expo_bounds(2) [OF y])
  finally have lt: "(2::rat) powi expo x < 2 powi (expo y + 1)" .
  have "expo x < expo y + 1"
  proof (rule ccontr)
    assume "\<not> expo x < expo y + 1"
    then have "expo y + 1 \<le> expo x" by simp
    then have "(2::rat) powi (expo y + 1) \<le> 2 powi expo x"
      by (intro power_int_increasing) simp_all
    with lt show False by simp
  qed
  then consider "expo x = expo y" | "expo x + 1 \<le> expo y"
    by linarith
  then show ?thesis
  proof cases
    case 1
    let ?u = "(2::rat) powi (expo y - 52)"
    have u: "0 < ?u" by simp
    have "x / ?u \<le> y / ?u"
      using assms(2) by (simp add: divide_right_mono)
    then have "round_half_even (x / ?u) \<le> round_half_even (y / ?u)"
      by (rule round_half_even_mono)
    then have "(of_int (round_half_even (x / ?u)) :: rat) \<le> of_int (round_half_even (y / ?u))"
      by (simp only: of_int_le_iff)
    then have "of_int (round_half_even (x / ?u)) * ?u \<le> of_int (round_half_even (y / ?u)) * ?u"
      using u by (rule mult_right_mono [OF _ less_imp_le])
    then show ?thesis
      by (simp add: fl_pos [OF assms(1)] fl_pos [OF y] 1)
  next
    case 2
    have "fl x \<le> 2 powi (expo x + 1)"
      by (rule fl_pos_bounds(2) [OF assms(1)])
    also have "(2::rat) powi (expo x + 1) \<le> 2 powi expo y"
      using 2 by (intro power_int_increasing) simp_all
    also have "\<dots> \<le> fl y"
      by (rule fl_pos_bounds(1) [OF y])
    finally show ?thesis .
  qed
qed

lemma fl_nonneg:
  assumes "0 \<le> x"
  shows "0 \<le> fl x"
proof (cases "x = 0")
  case True
  then show ?thesis by (simp add: fl_def)
next
  case False
  with assms have x: "0 < x" by simp
  have "0 < (2::rat) powi expo x" by simp
  also have "\<dots> \<le> fl x" by (rule fl_pos_bounds(1) [OF x])
  finally show ?thesis by simp
qed

lemma fl_mono:
  assumes "0 \<le> x" and "x \<le> y"
  shows "fl x \<le> fl y"
proof (cases "x = 0")
  case True
  with assms fl_nonneg [of y] show ?thesis by (simp add: fl_def)
next
  case False
  with assms fl_mono_pos [of x y] show ?thesis by simp
qed

section \<open>Properties of the quality scorer\<close>

text \<open>The sums and products of the scorer's literals, computed.\<close>

lemma fl_zero: "fl 0 = 0"
  by (simp add: fl_def)

lemma fl_one: "fl 1 = 1"
  by code_simp

lemma score_literals:
  "fadd 0 (fl (4 / 10)) = fl (4 / 10)"
  "fadd (fl (4 / 10)) 0 = fl (4 / 10)"
  "fadd 0 0 = 0"
  "fmul (fl (4 / 10)) 1 = fl (4 / 10)"
  "fmul (fl (4 / 10)) 0 = 0"
  "fmul 1 (fl (2 / 10)) = fl (2 / 10)"
  "fadd (fadd (fl (4 / 10)) (fl (4 / 10))) (fl (2 / 10)) = 1"
  "fl (4 / 10) \<le> fadd (fl (4 / 10)) (fl (4 / 10))"
  "fl (7 / 10) \<le> 1"
  "fl (5 / 10) \<le> fl (7 / 10)"
  by code_simp+

lemma fadd_nonneg: "0 \<le> x \<Longrightarrow> 0 \<le> y \<Longrightarrow> 0 \<le> fadd x y"
  by (simp add: fadd_def fl_nonneg)

lemma fadd_mono: "0 \<le> x \<Longrightarrow> 0 \<le> y \<Longrightarrow> x \<le> x' \<Longrightarrow> y \<le> y' \<Longrightarrow> fadd x y \<le> fadd x' y'"
  unfolding fadd_def by (intro fl_mono) simp_all

lemma fmul_unit_interval:
  assumes "0 \<le> x" and "x \<le> 1" and "0 \<le> c"
  shows "0 \<le> fmul x c" "fmul x c \<le> fmul 1 c"
proof -
  from assms show "0 \<le> fmul x c"
    by (simp add: fmul_def fl_nonneg)
  from assms have "x * c \<le> 1 * c"
    by (intro mult_right_mono) simp_all
  with assms show "fmul x c \<le> fmul 1 c"
    unfolding fmul_def by (intro fl_mono) simp_all
qed

lemma int_truediv_unit_interval:
  assumes "0 \<le> a" and "a \<le> b" and "0 < b"
  shows "0 \<le> int_truediv a b" "int_truediv a b \<le> 1"
proof -
  from assms have q: "0 \<le> (of_int a :: rat) / of_int b" "(of_int a :: rat) / of_int b \<le> 1"
    by simp_all
  from q(1) show "0 \<le> int_truediv a b"
    by (simp add: int_truediv_def fl_nonneg)
  from fl_mono [OF q] show "int_truediv a b \<le> 1"
    by (simp add: int_truediv_def fl_one)
qed

lemma phrase_coverage_ratio:
  fixes summary :: string and ch :: challenge
  defines "ev \<equiv> evaluate_summary_quality summary ch"
  shows "phrase_coverage ev =
      (if total_phrases ev = 0 then 1
       else int_truediv (int (phrases_found ev)) (int (total_phrases ev)))"
    and "phrases_found ev \<le> total_phrases ev"
  by (simp_all add: ev_def evaluate_summary_quality_def Let_def)

lemma phrase_coverage_unit_interval:
  "0 \<le> phrase_coverage (evaluate_summary_quality summary ch)"
  "phrase_coverage (evaluate_summary_quality summary ch) \<le> 1"
proof -
  let ?ev = "evaluate_summary_quality summary ch"
  show "0 \<le> phrase_coverage ?ev"
  proof (cases "total_phrases ?ev = 0")
    case True
    then show ?thesis by (simp add: phrase_coverage_ratio(1))
  next
    case False
    then show ?thesis
      using int_truediv_unit_interval(1)
        [of "int (phrases_found ?ev)" "int (total_phrases ?ev)"] phrase_coverage_ratio(2) [of summary ch]
      by (simp add: phrase_coverage_ratio(1))
  qed
  show "phrase_coverage ?ev \<le> 1"
  proof (cases "total_phrases ?ev = 0")
    case True
    then show ?thesis by (simp add: phrase_coverage_ratio(1))
  next
    case False
    then show ?thesis
      using int_truediv_unit_interval(2)
        [of "int (phrases_found ?ev)" "int (total_phrases ?ev)"] phrase_coverage_ratio(2) [of summary ch]
      by (simp add: phrase_coverage_ratio(1))
  qed
qed

lemma quality_score_sum:
  fixes summary :: string and ch :: challenge
  defines "ev \<equiv> evaluate_summary_quality summary ch"
  shows "quality_score ev =
      fadd (if solution_found ev
            then fadd (if issue_found ev then fadd 0 (fl (4 / 10)) else 0) (fl (4 / 10))
            else (if issue_found ev then fadd 0 (fl (4 / 10)) else 0))
           (fmul (phrase_coverage ev) (fl (2 / 10)))"
  unfolding ev_def evaluate_summary_quality_def Let_def by simp

text \<open>
  Claim C7. For every summary text and every challenge, the quality score returned by
  \<open>evaluate_summary_quality\<close> lies between 0 and 1, it is
  0.4 for a found issue plus 0.4 for a found solution plus 0.2 times the phrase coverage
  (in float arithmetic, added from the left), and the phrase coverage is the number of
  phrases found divided by the number of key phrases, or 1 when there are no key
  phrases. The issue and the solution are found when the lower-cased expected text is
  empty or occurs in the lower-cased summary, and the phrases found are the key phrases
  of the challenge whose lower-cased text occurs in it.
\<close>

theorem quality_score_bounded:
  fixes summary :: string and ch :: challenge
  defines "ev \<equiv> evaluate_summary_quality summary ch"
  shows "0 \<le> quality_score ev \<and> quality_score ev \<le> 1
    \<and> quality_score ev =
        fadd (fadd (fmul (fl (4 / 10)) (if issue_found ev then 1 else 0))
                   (fmul (fl (4 / 10)) (if solution_found ev then 1 else 0)))
             (fmul (fl (2 / 10)) (phrase_coverage ev))
    \<and> phrase_coverage ev =
        (if total_phrases ev = 0 then 1
         else int_truediv (int (phrases_found ev)) (int (total_phrases ev)))
    \<and> phrase_coverage ev =
        (if dict_get [] (key_phrases ch) = [] then 1
         else int_truediv
           (int (length (filter (\<lambda>phrase. py_in (lower phrase) (lower summary))
                           (dict_get [] (key_phrases ch)))))
           (int (length (dict_get [] (key_phrases ch)))))
    \<and> total_phrases ev = length (dict_get [] (key_phrases ch))
    \<and> phrases_found ev =
        length (filter (\<lambda>phrase. py_in (lower phrase) (lower summary))
                  (dict_get [] (key_phrases ch)))
    \<and> issue_found ev =
        (lower (dict_get [] (expected_issue ch)) = []
         \<or> py_in (lower (dict_get [] (expected_issue ch))) (lower summary))
    \<and> solution_found ev =
        (lower (dict_get [] (expected_solution ch)) = []
         \<or> py_in (lower (dict_get [] (expected_solution ch))) (lower summary))"
proof -
  let ?c4 = "fl (4 / 10)" and ?c2 = "fl (2 / 10)"
  let ?base = "if solution_found ev
            then fadd (if issue_found ev then fadd 0 ?c4 else 0) ?c4
            else (if issue_found ev then fadd 0 ?c4 else 0)"
  let ?part = "fmul (phrase_coverage ev) ?c2"
  have score: "quality_score ev = fadd ?base ?part"
    unfolding ev_def by (rule quality_score_sum)
  have c4: "0 \<le> ?c4" and c2: "0 \<le> ?c2"
    by (simp_all add: fl_nonneg)
  have cov: "0 \<le> ?part" "?part \<le> ?c2"
    using fmul_unit_interval [OF phrase_coverage_unit_interval [of summary ch] c2]
    unfolding ev_def by (simp_all only: score_literals)
  have c8: "0 \<le> fadd ?c4 ?c4"
    using c4 c4 by (rule fadd_nonneg)
  have base: "0 \<le> ?base \<and> ?base \<le> fadd ?c4 ?c4"
  proof (cases "issue_found ev")
    case found: True
    show ?thesis
    proof (cases "solution_found ev")
      case True
      with found c8 show ?thesis
        by (simp only: if_True score_literals(1) order_refl simp_thms)
    next
      case False
      with found c4 score_literals(8) show ?thesis
        by (simp only: if_True if_False score_literals(1) simp_thms)
    qed
  next
    case missing: False
    show ?thesis
    proof (cases "solution_found ev")
      case True
      with missing c4 score_literals(8) show ?thesis
        by (simp only: if_True if_False score_literals(1) simp_thms)
    next
      case False
      with missing c8 show ?thesis
        by (simp only: if_False order_refl simp_thms)
    qed
  qed
  have lo: "0 \<le> quality_score ev"
    unfolding score using base [THEN conjunct1] cov(1) by (rule fadd_nonneg)
  have "quality_score ev \<le> fadd (fadd ?c4 ?c4) ?c2"
    unfolding score using base [THEN conjunct1] cov(1) base [THEN conjunct2] cov(2)
    by (rule fadd_mono)
  then have hi: "quality_score ev \<le> 1"
    by (simp only: score_literals)
  have "?base = fadd (fmul ?c4 (if issue_found ev then 1 else 0))
                     (fmul ?c4 (if solution_found ev then 1 else 0))"
    by (cases "issue_found ev"; cases "solution_found ev")
      (simp_all only: if_True if_False score_literals)
  moreover have "?part = fmul ?c2 (phrase_coverage ev)"
    by (simp only: fmul_def mult.commute)
  ultimately have formula: "quality_score ev =
        fadd (fadd (fmul ?c4 (if issue_found ev then 1 else 0))
                   (fmul ?c4 (if solution_found ev then 1 else 0)))
             (fmul ?c2 (phrase_coverage ev))"
    using score by simp
  have ratio: "phrase_coverage ev =
        (if total_phrases ev = 0 then 1
         else int_truediv (int (phrases_found ev)) (int (total_phrases ev)))"
    unfolding ev_def by (rule phrase_coverage_ratio(1))
  have inputs: "phrase_coverage ev =
        (if dict_get [] (key_phrases ch) = [] then 1
         else int_truediv
           (int (length (filter (\<lambda>phrase. py_in (lower phrase) (lower summary))
                           (dict_get [] (key_phrases ch)))))
           (int (length (dict_get [] (key_phrases ch)))))"
    "total_phrases ev = length (dict_get [] (key_phrases ch))"
    "phrases_found ev =
        length (filter (\<lambda>phrase. py_in (lower phrase) (lower summary))
                  (dict_get [] (key_phrases ch)))"
    "issue_found ev =
        (lower (dict_get [] (expected_issue ch)) = []
         \<or> py_in (lower (dict_get [] (expected_issue ch))) (lower summary))"
    "solution_found ev =
        (lower (dict_get [] (expected_solution ch)) = []
         \<or> py_in (lower (dict_get [] (expected_solution ch))) (lower summary))"
    unfolding ev_def evaluate_summary_quality_def Let_def by auto
  from lo hi formula ratio inputs show ?thesis
    by blast
qed

text \<open>
  The challenge of the specification's example, on a summary that mentions the issue
  and one of the two key phrases: the score is 0.4 + 0.5 * 0.2, which is 0.5.
\<close>

theorem quality_score_bounded_witness:
  "quality_score (evaluate_summary_quality ''Build failed with ENOENT''
      \<lparr>command = Some ''npm run build'', expected_issue = Some ''build failed'',
       expected_solution = Some ''missing dependency'',
       key_phrases = Some [''npm install'', ''ENOENT'']\<rparr>) = 1 / 2
   \<and> 0 \<le> quality_score (evaluate_summary_quality ''Build failed with ENOENT''
      \<lparr>command = Some ''npm run build'', expected_issue = Some ''build failed'',
       expected_solution = Some ''missing dependency'',
       key_phrases = Some [''npm install'', ''ENOENT'']\<rparr>)
   \<and> quality_score (evaluate_summary_quality ''Build failed with ENOENT''
      \<lparr>command = Some ''npm run build'', expected_issue = Some ''build failed'',
       expected_solution = Some ''missing dependency'',
       key_phrases = Some [''npm install'', ''ENOENT'']\<rparr>) \<le> 1"
proof -
  have "quality_score (evaluate_summary_quality ''Build failed with ENOENT''
      \<lparr>command = Some ''npm run build'', expected_issue = Some ''build failed'',
       expected_solution = Some ''missing dependency'',
       key_phrases = Some [''npm install'', ''ENOENT'']\<rparr>) = 1 / 2"
    by code_simp
  then show ?thesis
    using quality_score_bounded [of "''Build failed with ENOENT''"
      "\<lparr>command = Some ''npm run build'', expected_issue = Some ''build failed'',
        expected_solution = Some ''missing dependency'',
        key_phrases = Some [''npm install'', ''ENOENT'']\<rparr>"]
    by blast
qed

lemma can_solve_threshold:
  "can_solve (evaluate_summary_quality summary ch)
     = (fl (7 / 10) \<le> quality_score (evaluate_summary_quality summary ch))"
  unfolding evaluate_summary_quality_def Let_def by simp

text \<open>
  Claim C8. For every challenge whose expected issue and expected solution are empty
  (or absent) and whose key-phrase list is empty (or absent), and for every summary
  text, \<open>evaluate_summary_quality\<close> returns the quality score 1 and \<open>can_solve\<close> true.
\<close>

theorem empty_challenge_full_score:
  assumes "dict_get [] (expected_issue ch) = []"
    and "dict_get [] (expected_solution ch) = []"
    and "dict_get [] (key_phrases ch) = []"
  shows "quality_score (evaluate_summary_quality summary ch) = 1
    \<and> can_solve (evaluate_summary_quality summary ch)"
proof -
  let ?ev = "evaluate_summary_quality summary ch"
  from assms have found: "issue_found ?ev" "solution_found ?ev" "phrase_coverage ?ev = 1"
    by (simp_all add: evaluate_summary_quality_def Let_def lower_def)
  have "quality_score ?ev
      = fadd (fadd (fadd 0 (fl (4 / 10))) (fl (4 / 10))) (fmul 1 (fl (2 / 10)))"
    unfolding quality_score_sum [of summary ch] using found by (simp only: if_True)
  then have one: "quality_score ?ev = 1"
    by (simp only: score_literals)
  then have "can_solve ?ev"
    unfolding can_solve_threshold by (simp only: score_literals)
  with one show ?thesis ..
qed

theorem empty_challenge_full_score_witness:
  "quality_score (evaluate_summary_quality ''Segmentation fault''
      \<lparr>command = Some ''make'', expected_issue = Some [], expected_solution = None,
       key_phrases = Some []\<rparr>) = 1
   \<and> can_solve (evaluate_summary_quality ''Segmentation fault''
      \<lparr>command = Some ''make'', expected_issue = Some [], expected_solution = None,
       key_phrases = Some []\<rparr>)"
proof -
  let ?ch = "\<lparr>command = Some ''make'', expected_issue = Some [], expected_solution = None,
              key_phrases = Some []\<rparr>"
  have i: "dict_get [] (expected_issue ?ch) = []"
    by (simp add: dict_get_def)
  have s: "dict_get [] (expected_solution ?ch) = []"
    by (simp add: dict_get_def)
  have k: "dict_get [] (key_phrases ?ch) = []"
    by (simp add: dict_get_def)
  show ?thesis
    by (rule empty_challenge_full_score [OF i s k])
qed

section \<open>Properties of the quality orchestrator\<close>

text \<open>
  Claim C1. When the classification of the terminal invocation has \<open>used_raw_output\<close>
  true, the quality scorer is not consulted: whatever the challenge and the text are,
  the evaluation is the zeroed one (issue and solution not found, phrase coverage 0,
  quality score 0, \<open>can_solve\<close> false), and full output is marked as needed.
\<close>

theorem raw_output_zeroed:
  assumes "used_raw_output r"
  shows "score_response r ch =
    (\<lparr>can_solve = False, quality_score = 0, issue_found = False, solution_found = False,
      phrase_coverage = 0, phrases_found = 0,
      total_phrases = length (dict_get [] (key_phrases ch))\<rparr>, True)"
  using assms by (simp add: score_response_def)

text \<open>
  A raw passthrough that contains the expected issue, the expected solution and both
  key phrases: the scorer alone would give it the full score.
\<close>

theorem raw_output_zeroed_witness:
  "used_raw_output (classify raw_passthrough 0)
   \<and> quality_score (evaluate_summary_quality raw_passthrough build_challenge) = 1
   \<and> score_response (classify raw_passthrough 0) build_challenge =
       (\<lparr>can_solve = False, quality_score = 0, issue_found = False, solution_found = False,
         phrase_coverage = 0, phrases_found = 0,
         total_phrases = length (dict_get [] (key_phrases build_challenge))\<rparr>, True)"
proof -
  have raw: "used_raw_output (classify raw_passthrough 0)"
    by code_simp
  have full: "quality_score (evaluate_summary_quality raw_passthrough build_challenge) = 1"
    by code_simp
  show ?thesis
    using raw full raw_output_zeroed [OF raw, of build_challenge] by blast
qed

lemma score_response_exclusive:
  assumes "score_response r ch = (ev, needs)" and "can_solve ev"
  shows "\<not> needs"
proof (cases "used_raw_output r")
  case True
  with assms show ?thesis by (auto simp: score_response_def)
next
  case False
  with assms(1) have ev: "ev = evaluate_summary_quality (q_stdout r) ch"
    and needs: "needs = (quality_score ev < fl (5 / 10))"
    by (auto simp: score_response_def Let_def)
  from assms(2) have "fl (7 / 10) \<le> quality_score ev"
    unfolding ev can_solve_threshold .
  with score_literals(10) have "fl (5 / 10) \<le> quality_score ev"
    by (rule order_trans)
  then show ?thesis
    unfolding needs by (simp only: not_less)
qed

text \<open>
  Claim C10. In every result row that the quality orchestrator records for a challenge,
  \<open>can_solve\<close> true implies \<open>needs_full_output\<close> false.
\<close>

theorem can_solve_excludes_needs_full_output:
  assumes "quality_step sh model_name config_file config_path_full challenge_name ch hist
             = (Some row, hist2)"
    and "row_can_solve row"
  shows "\<not> row_needs_full_output row"
proof -
  from assms(1) obtain r ev needs where
    sr: "score_response r ch = (ev, needs)"
    and c: "row_can_solve row = can_solve ev" and n: "row_needs_full_output row = needs"
    by (auto simp: quality_step_def Let_def split: if_splits prod.splits sum.splits)
  from score_response_exclusive [OF sr] assms(2) c n show ?thesis by simp
qed

theorem can_solve_excludes_needs_full_output_witness:
  "quality_step
     (scripted [Inr \<lparr>stdout = ''Build failed: missing dependency. Run npm install.'',
                     stderr = [], returncode = 1\<rparr>])
     ''m'' ''m.toml'' ''/configs/m.toml'' ''build'' build_challenge []
   = (Some \<lparr>row_model = ''m'', row_config_file = ''m.toml'', row_challenge = ''build'',
            row_can_solve = True, row_needs_full_output = False,
            row_quality_score = fl (9 / 10), row_exit_code = 1,
            row_summary = ''Build failed: missing dependency. Run npm install.''\<rparr>,
      [''cg -c /configs/m.toml --force-summary npm run build''])
   \<and> \<not> row_needs_full_output
        \<lparr>row_model = ''m'', row_config_file = ''m.toml'', row_challenge = ''build'',
         row_can_solve = True, row_needs_full_output = False,
         row_quality_score = fl (9 / 10), row_exit_code = 1,
         row_summary = ''Build failed: missing dependency. Run npm install.''\<rparr>"
proof -
  let ?row = "\<lparr>row_model = ''m'', row_config_file = ''m.toml'', row_challenge = ''build'',
         row_can_solve = True, row_needs_full_output = False,
         row_quality_score = fl (9 / 10), row_exit_code = 1,
         row_summary = ''Build failed: missing dependency. Run npm install.''\<rparr>"
  have step: "quality_step
     (scripted [Inr \<lparr>stdout = ''Build failed: missing dependency. Run npm install.'',
                     stderr = [], returncode = 1\<rparr>])
     ''m'' ''m.toml'' ''/configs/m.toml'' ''build'' build_challenge []
   = (Some ?row, [''cg -c /configs/m.toml --force-summary npm run build''])"
    by code_simp
  have solved: "row_can_solve ?row"
    by simp
  from can_solve_excludes_needs_full_output [OF step solved] step show ?thesis
    by (rule_tac conjI)
qed

section \<open>Properties of the speed runner's test input\<close>

text \<open>
  Claim C9. \<open>write_test_file\<close> with size factor 1.0 and 131072 tokens writes exactly
  131072 characters; in general it writes \<open>int(size_factor * max_tokens)\<close> characters,
  the product taken in float arithmetic, each of them the letter a (none at all when
  that number is negative, as Python's \<open>"a" * size\<close> is empty then).
\<close>

theorem write_test_file_size:
  "length (write_test_file 131072 1) = 131072
   \<and> length (write_test_file max_tokens size_factor)
        = nat (py_int (fmul size_factor (fl (of_int max_tokens))))
   \<and> write_test_file max_tokens size_factor
        = replicate (length (write_test_file max_tokens size_factor)) CHR ''a''"
proof -
  have "py_int (fmul 1 (fl 131072)) = 131072"
    by code_simp
  then have "length (write_test_file 131072 1) = 131072"
    by (simp add: write_test_file_def)
  then show ?thesis
    by (simp add: write_test_file_def)
qed

text \<open>
  Size factor 0.29 and 100 tokens: the float product is just below 29, so 28 characters
  are written.
\<close>

theorem write_test_file_size_witness:
  "length (write_test_file 100 (fl (29 / 100)))
     = nat (py_int (fmul (fl (29 / 100)) (fl (of_int 100))))
   \<and> length (write_test_file 100 (fl (29 / 100))) = 28"
proof -
  have "py_int (fmul (fl (29 / 100)) (fl (of_int 100))) = 28"
    by code_simp
  then show ?thesis
    using write_test_file_size [of 100 "fl (29 / 100)"] by simp
qed

section \<open>Properties of the fallback negotiation\<close>

lemma quality_run_command_cases:
  assumes "quality_run_command sh config_file cmd force_summary hist = (qres, qhist)"
  defines "c1 \<equiv> cg_command config_file force_summary cmd"
    and "c2 \<equiv> cg_command config_file False cmd"
  shows "(qhist = hist @ [c1]
           \<and> qres = map_sum id (\<lambda>p. classify (stdout p) (returncode p))
                      (quality_first_attempt (sh hist c1))
           \<and> \<not> (\<exists>p1. quality_first_attempt (sh hist c1) = Inr p1 \<and> returncode p1 \<noteq> 0
                    \<and> force_summary \<and> flag_rejected (stdout p1) (stderr p1)))
       \<or> (qhist = hist @ [c1, c2] \<and> force_summary
           \<and> (\<exists>p1. quality_first_attempt (sh hist c1) = Inr p1 \<and> returncode p1 \<noteq> 0
                  \<and> flag_rejected (stdout p1) (stderr p1))
           \<and> qres = map_sum id (\<lambda>p. classify (stdout p) (returncode p)) (sh (hist @ [c1]) c2))"
  using assms(1) unfolding c1_def c2_def
  by (auto simp: quality_run_command_def execute_def subprocess_run_def
      split: sum.splits prod.splits if_splits)

lemma speed_run_command_cases:
  assumes "speed_run_command sh config_file cmd timeout force_summary hist = (sres, shist)"
  defines "c1 \<equiv> cg_command config_file force_summary cmd"
    and "c2 \<equiv> cg_command config_file False cmd"
  shows "(shist = hist @ [c1] \<and>
            ((\<exists>po pe. sh hist c1 = Inl (TimeoutExpired po pe)
                \<and> sres = Inr \<lparr>s_stdout = timeout_message timeout po pe, s_exit_code = 124\<rparr>)
           \<or> (\<exists>exn. sh hist c1 = Inl exn \<and> sres = Inl exn)
           \<or> (\<exists>p1. sh hist c1 = Inr p1
                \<and> \<not> (returncode p1 \<noteq> 0 \<and> force_summary \<and> flag_rejected (stdout p1) (stderr p1))
                \<and> sres = Inr \<lparr>s_stdout = stdout p1, s_exit_code = returncode p1\<rparr>)))
       \<or> (shist = hist @ [c1, c2] \<and> force_summary
           \<and> (\<exists>p1. sh hist c1 = Inr p1 \<and> returncode p1 \<noteq> 0
                  \<and> flag_rejected (stdout p1) (stderr p1))
           \<and> sres = map_sum id (\<lambda>p. \<lparr>s_stdout = stdout p, s_exit_code = returncode p\<rparr>)
                      (sh (hist @ [c1]) c2))"
  using assms(1) unfolding c1_def c2_def
  by (auto simp: speed_run_command_def execute_def subprocess_run_def
      split: sum.splits prod.splits if_splits py_exception.splits)

lemma quality_step_row:
  assumes "quality_step sh model_name config_name config_file challenge_name ch hist
             = (Some row, hist2)"
  shows "\<exists>r ev. quality_run_command sh config_file (dict_get [] (command ch)) True hist
                  = (Inr r, hist2)
           \<and> score_response r ch = (ev, row_needs_full_output row)
           \<and> row_can_solve row = can_solve ev \<and> row_quality_score row = quality_score ev
           \<and> row_exit_code row = q_exit_code r
           \<and> row_summary row = summary_clean (q_stdout r)"
  using assms
  by (auto simp: quality_step_def Let_def split: if_splits prod.splits sum.splits)

text \<open>
  Claim C3. One call of \<open>run_command\<close>, in either runner, starts the subject CLI once
  or twice: the original command line, and at most one retry without the force flag.
  The retry is started only when the force flag was requested and the first attempt, as
  recorded, has a non-zero exit code and the flag's name in its combined lower-cased
  output. Whatever the retry's exit code is, nothing further is started, and a returned
  result is built from the terminal invocation alone: the retry's when there was one,
  the first attempt's otherwise. The row of the quality orchestrator is computed from
  that one result.
\<close>

theorem at_most_two_invocations:
  fixes sh :: shell
  assumes q: "quality_run_command sh config_file cmd force_summary hist = (qres, qhist)"
    and s: "speed_run_command sh config_file cmd timeout force_summary hist = (sres, shist)"
  defines "c1 \<equiv> cg_command config_file force_summary cmd"
    and "c2 \<equiv> cg_command config_file False cmd"
  shows "(qhist = hist @ [c1] \<or> qhist = hist @ [c1, c2])
    \<and> (shist = hist @ [c1] \<or> shist = hist @ [c1, c2])
    \<and> (qhist = hist @ [c1, c2] \<longrightarrow>
         force_summary
         \<and> (\<exists>p1. quality_first_attempt (sh hist c1) = Inr p1 \<and> returncode p1 \<noteq> 0
                \<and> flag_rejected (stdout p1) (stderr p1)))
    \<and> (shist = hist @ [c1, c2] \<longrightarrow>
         force_summary
         \<and> (\<exists>p1. sh hist c1 = Inr p1 \<and> returncode p1 \<noteq> 0
                \<and> flag_rejected (stdout p1) (stderr p1)))
    \<and> (\<forall>r. qres = Inr r \<longrightarrow>
         (\<exists>p. r = classify (stdout p) (returncode p)
            \<and> (if qhist = hist @ [c1, c2] then sh (hist @ [c1]) c2
                else quality_first_attempt (sh hist c1)) = Inr p))
    \<and> (\<forall>r. sres = Inr r \<and> shist = hist @ [c1, c2] \<longrightarrow>
         (\<exists>p. r = \<lparr>s_stdout = stdout p, s_exit_code = returncode p\<rparr>
            \<and> sh (hist @ [c1]) c2 = Inr p))
    \<and> (\<forall>r. sres = Inr r \<and> shist = hist @ [c1] \<longrightarrow>
         (\<exists>p. r = \<lparr>s_stdout = stdout p, s_exit_code = returncode p\<rparr> \<and> sh hist c1 = Inr p)
         \<or> (\<exists>po pe. r = \<lparr>s_stdout = timeout_message timeout po pe, s_exit_code = 124\<rparr>
               \<and> sh hist c1 = Inl (TimeoutExpired po pe)))
    \<and> (\<forall>row h. quality_step sh model_name config_name config_file challenge_name ch hist
                  = (Some row, h) \<longrightarrow>
         (\<exists>r ev. quality_run_command sh config_file (dict_get [] (command ch)) True hist
                   = (Inr r, h)
            \<and> score_response r ch = (ev, row_needs_full_output row)
            \<and> row_can_solve row = can_solve ev \<and> row_quality_score row = quality_score ev
            \<and> row_exit_code row = q_exit_code r
            \<and> row_summary row = summary_clean (q_stdout r)))"
proof -
  note qc = quality_run_command_cases [OF q, folded c1_def c2_def]
  note sc = speed_run_command_cases [OF s, folded c1_def c2_def]
  have q_calls: "qhist = hist @ [c1] \<or> qhist = hist @ [c1, c2]"
    using qc by blast
  have s_calls: "shist = hist @ [c1] \<or> shist = hist @ [c1, c2]"
    using sc by blast
  have q_retry: "qhist = hist @ [c1, c2] \<longrightarrow>
         force_summary
         \<and> (\<exists>p1. quality_first_attempt (sh hist c1) = Inr p1 \<and> returncode p1 \<noteq> 0
                \<and> flag_rejected (stdout p1) (stderr p1))"
    using qc by auto
  have s_retry: "shist = hist @ [c1, c2] \<longrightarrow>
         force_summary
         \<and> (\<exists>p1. sh hist c1 = Inr p1 \<and> returncode p1 \<noteq> 0
                \<and> flag_rejected (stdout p1) (stderr p1))"
    using sc by auto
  have q_terminal: "\<forall>r. qres = Inr r \<longrightarrow>
         (\<exists>p. r = classify (stdout p) (returncode p)
            \<and> (if qhist = hist @ [c1, c2] then sh (hist @ [c1]) c2
                else quality_first_attempt (sh hist c1)) = Inr p)"
    using qc by (auto simp: map_sum_def split: sum.splits)
  have s_terminal2: "\<forall>r. sres = Inr r \<and> shist = hist @ [c1, c2] \<longrightarrow>
         (\<exists>p. r = \<lparr>s_stdout = stdout p, s_exit_code = returncode p\<rparr>
            \<and> sh (hist @ [c1]) c2 = Inr p)"
    using sc by (auto simp: map_sum_def split: sum.splits)
  have s_terminal1: "\<forall>r. sres = Inr r \<and> shist = hist @ [c1] \<longrightarrow>
         (\<exists>p. r = \<lparr>s_stdout = stdout p, s_exit_code = returncode p\<rparr> \<and> sh hist c1 = Inr p)
         \<or> (\<exists>po pe. r = \<lparr>s_stdout = timeout_message timeout po pe, s_exit_code = 124\<rparr>
               \<and> sh hist c1 = Inl (TimeoutExpired po pe))"
    using sc by auto
  have rows: "\<forall>row h. quality_step sh model_name config_name config_file challenge_name ch hist
                  = (Some row, h) \<longrightarrow>
         (\<exists>r ev. quality_run_command sh config_file (dict_get [] (command ch)) True hist
                   = (Inr r, h)
            \<and> score_response r ch = (ev, row_needs_full_output row)
            \<and> row_can_solve row = can_solve ev \<and> row_quality_score row = quality_score ev
            \<and> row_exit_code row = q_exit_code r
            \<and> row_summary row = summary_clean (q_stdout r))"
    using quality_step_row by blast
  from q_calls s_calls q_retry s_retry q_terminal s_terminal2 s_terminal1 rows
  show ?thesis by blast
qed

text \<open>
  A first attempt rejected for the unknown flag, then a retry that fails with exit code
  1: both runners stop after the retry and return its output.
\<close>

theorem at_most_two_invocations_witness:
  "quality_run_command
     (scripted [Inr \<lparr>stdout = [], stderr = unsupported_flag_error, returncode = 2\<rparr>,
                Inr \<lparr>stdout = ''partial summary'', stderr = ''boom'', returncode = 1\<rparr>])
     ''c.toml'' ''ls'' True []
   = (Inr (classify ''partial summary'' 1),
      [''cg -c c.toml --force-summary ls'', ''cg -c c.toml  ls''])
   \<and> speed_run_command
     (scripted [Inr \<lparr>stdout = [], stderr = unsupported_flag_error, returncode = 2\<rparr>,
                Inr \<lparr>stdout = ''partial summary'', stderr = ''boom'', returncode = 1\<rparr>])
     ''c.toml'' ''ls'' 300 True []
   = (Inr \<lparr>s_stdout = ''partial summary'', s_exit_code = 1\<rparr>,
      [''cg -c c.toml --force-summary ls'', ''cg -c c.toml  ls''])
   \<and> ([''cg -c c.toml --force-summary ls'', ''cg -c c.toml  ls'']
        = [] @ [cg_command ''c.toml'' True ''ls'']
      \<or> [''cg -c c.toml --force-summary ls'', ''cg -c c.toml  ls'']
        = [] @ [cg_command ''c.toml'' True ''ls'', cg_command ''c.toml'' False ''ls''])"
proof -
  let ?sh = "scripted [Inr \<lparr>stdout = [], stderr = unsupported_flag_error, returncode = 2\<rparr>,
                Inr \<lparr>stdout = ''partial summary'', stderr = ''boom'', returncode = 1\<rparr>]"
  have q: "quality_run_command ?sh ''c.toml'' ''ls'' True []
     = (Inr (classify ''partial summary'' 1),
        [''cg -c c.toml --force-summary ls'', ''cg -c c.toml  ls''])"
    by code_simp
  have s: "speed_run_command ?sh ''c.toml'' ''ls'' 300 True []
     = (Inr \<lparr>s_stdout = ''partial summary'', s_exit_code = 1\<rparr>,
        [''cg -c c.toml --force-summary ls'', ''cg -c c.toml  ls''])"
    by code_simp
  from at_most_two_invocations [OF q s] q s show ?thesis
    by blast
qed

lemma speed_timeout_not_retried:
  assumes "sh hist (cg_command config_file force_summary cmd) = Inl (TimeoutExpired po pe)"
  shows "speed_run_command sh config_file cmd timeout force_summary hist
    = (Inr \<lparr>s_stdout = timeout_message timeout po pe, s_exit_code = 124\<rparr>,
       hist @ [cg_command config_file force_summary cmd])"
  using assms by (simp add: speed_run_command_def execute_def subprocess_run_def)

lemma quality_timeout_recorded:
  assumes "sh hist (cg_command config_file force_summary cmd) = Inl (TimeoutExpired po pe)"
    and "timeout_output po pe = Inr out"
    and "\<not> (force_summary \<and> flag_rejected out [])"
  shows "quality_run_command sh config_file cmd force_summary hist
    = (Inr (classify out 124),
       hist @ [cg_command config_file force_summary cmd])"
  using assms
  by (auto simp: quality_run_command_def quality_first_attempt_def execute_def
      subprocess_run_def)

text \<open>
  Claim C2, on the code: in evals/quality/runner.py a first attempt that times out is
  given exit code 124 and then goes through the same retry test as a failed one. When
  its partial output is text that mentions the flag, a second process is started and
  its result replaces the timeout. When its partial output is bytes, building the
  recorded output raises \<open>TypeError\<close>. In neither case is the timeout returned as the
  terminal result. (evals/speed/runner.py returns at once, see
  \<open>speed_timeout_not_retried\<close>.)
\<close>

theorem quality_timeout_retried:
  "quality_run_command
     (scripted [Inl (TimeoutExpired (Text ''cg: summarizing with --force-summary'') NoOutput),
                Inr \<lparr>stdout = ''short summary'', stderr = [], returncode = 0\<rparr>])
     ''c.toml'' ''ls'' True []
   = (Inr \<lparr>q_stdout = ''short summary'', q_exit_code = 0, output_file = None,
           used_raw_output = False\<rparr>,
      [''cg -c c.toml --force-summary ls'', ''cg -c c.toml  ls''])
   \<and> quality_run_command
     (scripted [Inl (TimeoutExpired (Bytes ''cg: summarizing with --force-summary'') NoOutput),
                Inr \<lparr>stdout = ''short summary'', stderr = [], returncode = 0\<rparr>])
     ''c.toml'' ''ls'' True []
   = (Inl TypeError, [''cg -c c.toml --force-summary ls''])"
  by code_simp

text \<open>
  Claim C6, on the code: the retry is started outside the \<open>try\<close> block, so a timeout of
  the retry leaves \<open>run_command\<close> as an exception in both runners, and the quality
  orchestrator records no row for that challenge.
\<close>

theorem retry_timeout_raises:
  "quality_run_command
     (scripted [Inr \<lparr>stdout = [], stderr = unsupported_flag_error, returncode = 2\<rparr>,
                Inl (TimeoutExpired NoOutput NoOutput)])
     ''c.toml'' ''ls'' True []
   = (Inl (TimeoutExpired NoOutput NoOutput),
      [''cg -c c.toml --force-summary ls'', ''cg -c c.toml  ls''])
   \<and> speed_run_command
     (scripted [Inr \<lparr>stdout = [], stderr = unsupported_flag_error, returncode = 2\<rparr>,
                Inl (TimeoutExpired NoOutput NoOutput)])
     ''c.toml'' ''ls'' 300 True []
   = (Inl (TimeoutExpired NoOutput NoOutput),
      [''cg -c c.toml --force-summary ls'', ''cg -c c.toml  ls''])
   \<and> quality_step
     (scripted [Inr \<lparr>stdout = [], stderr = unsupported_flag_error, returncode = 2\<rparr>,
                Inl (TimeoutExpired NoOutput NoOutput)])
     ''m'' ''c.toml'' ''/configs/c.toml'' ''build'' build_challenge []
   = (None,
      [''cg -c /configs/c.toml --force-summary npm run build'',
       ''cg -c /configs/c.toml  npm run build''])"
  by code_simp

text \<open>First-attempt timeouts as the two runners record them.\<close>

lemma first_timeout_examples:
  "speed_run_command (scripted [Inl (TimeoutExpired (Bytes ''it's 50%'') NoOutput)])
     ''c.toml'' ''ls'' 300 True []
   = (Inr \<lparr>s_stdout = ''Command timed out after 300s. stdout: b'' @ [dq] @ ''it''
                @ [sq] @ ''s 50%'' @ [dq] @ '' stderr: '',
           s_exit_code = 124\<rparr>,
      [''cg -c c.toml --force-summary ls''])
   \<and> quality_run_command (scripted [Inl (TimeoutExpired NoOutput NoOutput)])
     ''c.toml'' ''ls'' True []
   = (Inr \<lparr>q_stdout = nl, q_exit_code = 124, output_file = None, used_raw_output = False\<rparr>,
      [''cg -c c.toml --force-summary ls''])"
  by code_simp

section \<open>Properties of the string primitives\<close>

lemma py_in_iff_sublist: "py_in xs ys = sublist xs ys"
  by (induction ys) (simp_all add: sublist_Cons_right)

lemma split_from_pieces:
  "l \<in> set (split_from sep piece s) \<Longrightarrow> sublist l (piece @ s)"
proof (induction sep piece s rule: split_from.induct)
  case (1 sep piece)
  then show ?case by simp
next
  case (2 sep piece c cs)
  show ?case
  proof (cases "prefix sep (c # cs)")
    case True
    with "2.prems" consider "l = piece"
      | "l \<in> set (split_from sep [] (drop (length sep - 1) cs))"
      by auto
    then show ?thesis
    proof cases
      case 1
      then show ?thesis by simp
    next
      case 2
      with "2.IH"(1) True have "sublist l (drop (length sep - 1) cs)"
        by simp
      also have "sublist (drop (length sep - 1) cs) (piece @ c # cs)"
        by (metis append.assoc append_Cons append_Nil append_take_drop_id sublist_appendI
            sublist_append_leftI)
      finally show ?thesis .
    qed
  next
    case False
    with "2.prems" "2.IH"(2) show ?thesis by simp
  qed
qed

lemma split_from_no_sep:
  "\<not> sublist sep s \<Longrightarrow> split_from sep piece s = [piece @ s]"
proof (induction s arbitrary: piece)
  case Nil
  then show ?case by simp
next
  case (Cons c cs)
  then have "\<not> prefix sep (c # cs)" and "\<not> sublist sep cs"
    by (simp_all add: sublist_Cons_right)
  with Cons.IH [of "piece @ [c]"] show ?case by simp
qed

lemma split_from_first:
  assumes "\<not> sublist sep (a @ butlast sep)"
  shows "split_from sep piece (a @ sep @ b) = (piece @ a) # split_from sep [] b"
  using assms
proof (induction a arbitrary: piece)
  case Nil
  then have "sep \<noteq> []" by auto
  then obtain d ds where sep: "sep = d # ds" by (cases sep) auto
  show ?case by (simp add: sep)
next
  case (Cons c a)
  then have ne: "sep \<noteq> []" by auto
  from Cons.prems have np: "\<not> prefix sep (c # a @ butlast sep)"
    and ns: "\<not> sublist sep (a @ butlast sep)"
    by (simp_all add: sublist_Cons_right)
  have "\<not> prefix sep (c # a @ sep @ b)"
  proof
    assume p: "prefix sep (c # a @ sep @ b)"
    have q: "prefix (c # a @ butlast sep) (c # a @ sep @ b)"
      using ne by (metis append_butlast_last_id append.assoc prefix_def same_prefix_prefix
          prefix_Cons)
    have "length sep \<le> length (c # a @ butlast sep)"
      using ne by (cases sep) auto
    from prefix_length_prefix [OF p q this] np show False by simp
  qed
  with Cons.IH [OF ns, of "piece @ [c]"] show ?case by simp
qed

lemma find_output_file_none:
  "\<forall>l \<in> set ls. \<not> py_in ''complete output is available at'' l \<Longrightarrow> find_output_file ls = None"
  by (induction ls) simp_all

lemma find_output_file_first:
  assumes "\<forall>l \<in> set before. \<not> py_in ''complete output is available at'' l"
    and "py_in ''complete output is available at'' line"
  shows "find_output_file (before @ line # after)
    = (let parts = py_split ''available at '' line
       in if length parts > 1 then Some (py_strip (parts ! 1)) else None)"
  using assms by (induction before) simp_all

lemma marker_has_delimiter: "sublist ''available at'' ''complete output is available at''"
proof -
  have "''complete output is available at'' = ''complete output is '' @ ''available at''"
    by simp
  then show ?thesis
    by (metis sublist_append_leftI)
qed

lemma delimiter_first_after_pre:
  assumes "\<not> sublist ''available at '' pre"
  shows "\<not> sublist ''available at '' (pre @ ''complete output is available at'')"
proof
  assume "sublist ''available at '' (pre @ ''complete output is available at'')"
  then consider "sublist ''available at '' pre"
    | "sublist ''available at '' ''complete output is available at''"
    | xs1 xs2 where "''available at '' = xs1 @ xs2" "suffix xs1 pre"
        "prefix xs2 ''complete output is available at''"
    unfolding sublist_append by blast
  then show False
  proof cases
    case 1
    with assms show ?thesis ..
  next
    case 2
    then have "py_in ''available at '' ''complete output is available at''"
      by (simp only: py_in_iff_sublist)
    then show ?thesis by simp
  next
    case 3
    show ?thesis
    proof (cases xs2)
      case Nil
      with 3 have "suffix ''available at '' pre" by simp
      with assms show ?thesis by (auto dest: suffix_imp_sublist)
    next
      case (Cons x xs)
      with 3(3) have "x = CHR ''c''" by (simp add: prefix_Cons)
      moreover from 3(1) Cons have "x \<in> set ''available at ''"
        by (metis in_set_conv_decomp)
      ultimately show ?thesis by simp
    qed
  qed
qed

text \<open>
  Claim C5, as the code has it. A standard output without the words "available at"
  gives no output file. When the first line that contains the phrase
  "complete output is available at" reads \<open>pre\<close>, the phrase, a space and \<open>path\<close>, with
  no "available at " inside \<open>pre\<close> or \<open>path\<close>, the output file is \<open>path\<close> without its
  surrounding whitespace; lines after that one are not looked at.
\<close>

theorem extract_output_file_marker:
  "(\<not> py_in ''available at'' out \<longrightarrow> extract_output_file out = None)
   \<and> (py_split nl out = before @ (pre @ ''complete output is available at '' @ path) # after
      \<and> (\<forall>l \<in> set before. \<not> py_in ''complete output is available at'' l)
      \<and> \<not> py_in ''available at '' pre \<and> \<not> py_in ''available at '' path
      \<longrightarrow> extract_output_file out = Some (py_strip path))"
proof (intro conjI impI)
  assume no: "\<not> py_in ''available at'' out"
  have "\<forall>l \<in> set (py_split nl out). \<not> py_in ''complete output is available at'' l"
  proof
    fix l
    assume "l \<in> set (py_split nl out)"
    then have l: "sublist l out"
      using split_from_pieces [of l nl "[]" out] by (simp add: py_split_def)
    show "\<not> py_in ''complete output is available at'' l"
    proof
      assume "py_in ''complete output is available at'' l"
      then have "sublist ''complete output is available at'' l"
        by (simp only: py_in_iff_sublist)
      with marker_has_delimiter l have "sublist ''available at'' out"
        by (meson sublist_order.order.trans)
      with no show False by (simp add: py_in_iff_sublist)
    qed
  qed
  then show "extract_output_file out = None"
    unfolding extract_output_file_def by (rule find_output_file_none)
next
  let ?line = "pre @ ''complete output is available at '' @ path"
  assume h: "py_split nl out = before @ ?line # after
      \<and> (\<forall>l \<in> set before. \<not> py_in ''complete output is available at'' l)
      \<and> \<not> py_in ''available at '' pre \<and> \<not> py_in ''available at '' path"
  then have pre: "\<not> sublist ''available at '' pre" and path: "\<not> sublist ''available at '' path"
    by (simp_all add: py_in_iff_sublist)
  have line: "?line = (pre @ ''complete output is '') @ ''available at '' @ path"
    by simp
  have "\<not> sublist ''available at '' ((pre @ ''complete output is '') @ butlast ''available at '')"
    using delimiter_first_after_pre [OF pre] by simp
  from split_from_first [OF this, of "[]" path]
  have "py_split ''available at '' ?line
      = (pre @ ''complete output is '') # split_from ''available at '' [] path"
    unfolding py_split_def line by simp
  also have "split_from ''available at '' [] path = [path]"
    using split_from_no_sep [OF path, of "[]"] by simp
  finally have parts: "py_split ''available at '' ?line = [pre @ ''complete output is '', path]" .
  have "sublist ''complete output is available at''
          (pre @ ''complete output is available at'' @ ('' '' @ path))"
    by (rule sublist_appendI)
  then have marker: "py_in ''complete output is available at'' ?line"
    by (simp add: py_in_iff_sublist)
  from h have before: "\<forall>l \<in> set before. \<not> py_in ''complete output is available at'' l"
    by blast
  have "find_output_file (before @ ?line # after) = Some (py_strip path)"
    unfolding find_output_file_first [OF before marker] parts by simp
  with h show "extract_output_file out = Some (py_strip path)"
    by (simp add: extract_output_file_def)
qed


text \<open>
  A line that has the words "available at" and a path, but not the phrase
  "complete output is available at", gives no output file.
\<close>

theorem available_at_without_marker:
  "py_in ''available at /tmp/x.out'' ''Full log available at /tmp/x.out''
   \<and> extract_output_file ''Full log available at /tmp/x.out'' = None"
  by code_simp

theorem extract_output_file_marker_witness:
  "extract_output_file ''no artifact was written'' = None
   \<and> extract_output_file
        (''Summary: build failed'' @ nl
           @ ''The complete output is available at  /tmp/x.out '' @ nl @ ''bye'')
      = Some ''/tmp/x.out''"
proof -
  let ?out = "''Summary: build failed'' @ nl
           @ ''The complete output is available at  /tmp/x.out '' @ nl @ ''bye''"
  have none: "\<not> py_in ''available at'' ''no artifact was written''"
    by code_simp
  have lines: "py_split nl ?out
      = [''Summary: build failed'']
          @ (''The '' @ ''complete output is available at '' @ '' /tmp/x.out '') # [''bye'']"
    by code_simp
  have before: "\<forall>l \<in> set [''Summary: build failed''].
      \<not> py_in ''complete output is available at'' l"
    by simp
  have pre: "\<not> py_in ''available at '' ''The ''"
    by code_simp
  have path: "\<not> py_in ''available at '' '' /tmp/x.out ''"
    by code_simp
  have strip: "py_strip '' /tmp/x.out '' = ''/tmp/x.out''"
    by code_simp
  from extract_output_file_marker [where out = "''no artifact was written''"] none
  have first: "extract_output_file ''no artifact was written'' = None"
    by blast
  from extract_output_file_marker [where out = ?out and before = "[''Summary: build failed'']"
      and pre = "''The ''" and path = "'' /tmp/x.out ''" and after = "[''bye'']"]
    lines before pre path
  have "extract_output_file ?out = Some (py_strip '' /tmp/x.out '')"
    by blast
  with first strip show ?thesis
    by simp
qed

section \<open>Properties of the command line\<close>

lemma safe_char_plain:
  assumes "safe_char c"
  shows "c \<noteq> sq" "c \<noteq> dq" "c \<noteq> backslash" "c \<notin> set blank" "c \<notin> set operator_start"
    "c \<noteq> CHR ''#''" "c \<notin> set expansion_chars" "\<not> isspace c"
  using assms
  by (auto simp: safe_char_def sq_def dq_def backslash_def blank_def operator_start_def
      expansion_chars_def isspace_def whitespace_def ascii_lowercase_def ascii_uppercase_def)

lemma sh_read_safe:
  "list_all safe_char s \<Longrightarrow> s \<noteq> [] \<Longrightarrow> length toks < n \<Longrightarrow>
   sh_read n Unquoted cur toks (s @ rest)
     = sh_read n Unquoted (Some (word_of cur @ s, plain_of cur)) toks rest"
proof (induction s arbitrary: cur)
  case Nil
  then show ?case by simp
next
  case (Cons c s)
  then have c: "safe_char c" and s: "list_all safe_char s"
    by simp_all
  have step: "sh_read n Unquoted cur toks (c # s @ rest)
      = sh_read n Unquoted (add_plain cur c) toks (s @ rest)"
    using safe_char_plain [OF c] Cons.prems(3) by simp
  show ?case
  proof (cases "s = []")
    case True
    with step show ?thesis by (simp add: add_plain_def)
  next
    case False
    from Cons.IH [OF s False Cons.prems(3), of "add_plain cur c"] step show ?thesis
      by (simp add: add_plain_def word_of_def plain_of_def)
  qed
qed

lemma sh_read_quoted_body:
  "sh_read n InSingle (Some (w, False)) toks (concat (map quote_char s) @ sq # rest)
     = sh_read n Unquoted (Some (w @ s, False)) toks rest"
proof (induction s arbitrary: w)
  case Nil
  then show ?case by simp
next
  case (Cons c s)
  show ?case
  proof (cases "c = sq")
    case True
    have "sh_read n InSingle (Some (w, False)) toks (concat (map quote_char (c # s)) @ sq # rest)
        = sh_read n InSingle (Some (w @ [sq], False)) toks (concat (map quote_char s) @ sq # rest)"
      using True
      by (simp add: quote_char_def add_quoted_def word_of_def sq_def dq_def backslash_def
          backquote_def)
    with Cons.IH [of "w @ [sq]"] True show ?thesis by simp
  next
    case False
    then have "sh_read n InSingle (Some (w, False)) toks
          (concat (map quote_char (c # s)) @ sq # rest)
        = sh_read n InSingle (Some (w @ [c], False)) toks (concat (map quote_char s) @ sq # rest)"
      by (simp add: quote_char_def add_quoted_def word_of_def)
    with Cons.IH [of "w @ [c]"] show ?thesis by simp
  qed
qed

text \<open>
  The shell reads what \<open>shlex.quote\<close> returns as the quoted string itself, joined to
  the word in progress, whatever follows.
\<close>

lemma sh_read_shlex_quote:
  assumes "length toks < n"
  shows "\<exists>p. sh_read n Unquoted cur toks (shlex_quote s @ rest)
     = sh_read n Unquoted (Some (word_of cur @ s, p)) toks rest"
proof -
  consider "s = []" | "s \<noteq> []" "list_all safe_char s" | "s \<noteq> []" "\<not> list_all safe_char s"
    by blast
  then show ?thesis
  proof cases
    case 1
    with assms have "sh_read n Unquoted cur toks (shlex_quote s @ rest)
        = sh_read n Unquoted (Some (word_of cur @ s, False)) toks rest"
      by (simp add: shlex_quote_def add_quoted_def)
    then show ?thesis ..
  next
    case 2
    with assms have "sh_read n Unquoted cur toks (shlex_quote s @ rest)
        = sh_read n Unquoted (Some (word_of cur @ s, plain_of cur)) toks rest"
      by (simp add: shlex_quote_def sh_read_safe)
    then show ?thesis ..
  next
    case 3
    with assms have "sh_read n Unquoted cur toks (shlex_quote s @ rest)
        = sh_read n Unquoted (Some (word_of cur @ s, False)) toks rest"
      using sh_read_quoted_body [of n "word_of cur" toks s rest]
      by (simp add: shlex_quote_def add_quoted_def)
    then show ?thesis ..
  qed
qed

lemma sh_read_word_end:
  assumes "rest = [] \<or> hd rest = CHR '' ''" and "Suc (length toks) = n"
  shows "sh_read n Unquoted (Some (w, p)) toks rest = Read (toks @ [Word w], tl rest)"
proof (cases rest)
  case Nil
  then show ?thesis by (simp add: flush_def)
next
  case (Cons c r)
  with assms(1) have c: "c = CHR '' ''" by simp
  have "sh_read n Unquoted (Some (w, p)) toks (CHR '' '' # r)
      = sh_read n Unquoted None (toks @ [Word w]) r"
    by (simp add: sq_def dq_def backslash_def blank_def flush_def)
  also have "\<dots> = Read (toks @ [Word w], r)"
    using assms(2) by (cases r) (simp_all add: flush_def)
  finally show ?thesis
    by (simp add: Cons c)
qed

lemma rstrip_after_word:
  assumes "a \<noteq> []" and "\<not> isspace (last a)"
  shows "rev (dropWhile isspace (rev (a @ b))) = a @ rev (dropWhile isspace (rev b))"
proof (cases "\<forall>x \<in> set (rev b). isspace x")
  case True
  then have "dropWhile isspace (rev b) = []"
    by simp
  moreover from True have "dropWhile isspace (rev b @ rev a) = dropWhile isspace (rev a)"
    by (intro dropWhile_append2) simp
  moreover have "dropWhile isspace (rev a) = rev a"
    using assms by (cases "rev a") (auto simp: last_rev hd_rev)
  ultimately show ?thesis by simp
next
  case False
  then have "dropWhile isspace (rev b @ rev a) = dropWhile isspace (rev b) @ rev a"
    by (auto simp: dropWhile_append1)
  then show ?thesis by simp
qed

lemma rstrip_keeps_head:
  "rev (dropWhile P (rev (x # xs))) = [] \<or> hd (rev (dropWhile P (rev (x # xs)))) = x"
proof (cases "\<forall>y \<in> set (rev xs). P y")
  case True
  then have "dropWhile P (rev xs @ [x]) = dropWhile P [x]"
    by (intro dropWhile_append2) simp
  then show ?thesis by simp
next
  case False
  then have "dropWhile P (rev xs @ [x]) = dropWhile P (rev xs) @ [x]"
    by (auto simp: dropWhile_append1)
  then show ?thesis by simp
qed

lemma shlex_quote_ends:
  "shlex_quote s \<noteq> [] \<and> \<not> isspace (last (shlex_quote s))"
proof -
  have sq: "\<not> isspace sq"
    by (simp add: isspace_def whitespace_def sq_def)
  consider "s = []" | "s \<noteq> []" "list_all safe_char s" | "s \<noteq> []" "\<not> list_all safe_char s"
    by blast
  then show ?thesis
  proof cases
    case 1
    then show ?thesis using sq by (simp add: shlex_quote_def)
  next
    case 2
    then have "safe_char (last s)"
      by (simp add: list_all_iff)
    with 2 show ?thesis
      using safe_char_plain(8) by (simp add: shlex_quote_def)
  next
    case 3
    then show ?thesis using sq by (simp add: shlex_quote_def)
  qed
qed

text \<open>
  Claim C4, as the code has it. Only the configuration file path is escaped, with
  \<open>shlex.quote\<close>: whatever the path and the command text are, the command line is
  \<open>cg -c\<close>, the quoted path and the rest (the force flag, if any, and the command text
  as given, without trailing whitespace), and the shell reads the first three tokens of
  it as the words \<open>cg\<close>, \<open>-c\<close> and the path itself, leaving the rest to be read. The
  command text is not escaped: the shell reads the rest by its own rules.
\<close>

theorem config_path_escaped:
  fixes config_file cmd :: string and use_force :: bool
  defines "rest \<equiv> rev (dropWhile isspace
      (rev ('' '' @ (if use_force then ''--force-summary'' else []) @ '' '' @ cmd)))"
  shows "sh_tokens 1 (shlex_quote config_file) = Read ([Word config_file], [])
    \<and> cg_command config_file use_force cmd = ''cg -c '' @ shlex_quote config_file @ rest
    \<and> sh_tokens 3 (cg_command config_file use_force cmd)
        = Read ([Word ''cg'', Word ''-c'', Word config_file], tl rest)"
proof -
  let ?flag = "if use_force then ''--force-summary'' else []"
  let ?tail = "'' '' @ ?flag @ '' '' @ cmd"
  obtain p where "sh_read 1 Unquoted None [] (shlex_quote config_file @ [])
      = sh_read 1 Unquoted (Some (word_of None @ config_file, p)) [] []"
    using sh_read_shlex_quote [of "[]" 1 None config_file "[]"] by auto
  then have single: "sh_tokens 1 (shlex_quote config_file) = Read ([Word config_file], [])"
    by (simp add: sh_tokens_def word_of_def flush_def)
  have lead: "dropWhile isspace (''cg -c '' @ shlex_quote config_file @ ?tail)
      = ''cg -c '' @ shlex_quote config_file @ ?tail"
    by (simp add: isspace_def whitespace_def)
  have "rev (dropWhile isspace (rev ((''cg -c '' @ shlex_quote config_file) @ ?tail)))
      = (''cg -c '' @ shlex_quote config_file) @ rest"
    unfolding rest_def using shlex_quote_ends [of config_file]
    by (intro rstrip_after_word) simp_all
  with lead have line: "cg_command config_file use_force cmd
      = ''cg -c '' @ shlex_quote config_file @ rest"
    by (simp add: cg_command_def py_strip_def Let_def)
  have head: "sh_read 3 Unquoted None [] (''cg -c '' @ shlex_quote config_file @ rest)
      = sh_read 3 Unquoted None [Word ''cg'', Word ''-c''] (shlex_quote config_file @ rest)"
    by (simp add: sq_def dq_def backslash_def blank_def operator_start_def
        expansion_chars_def add_plain_def word_of_def plain_of_def flush_def)
  obtain q where path: "sh_read 3 Unquoted None [Word ''cg'', Word ''-c'']
        (shlex_quote config_file @ rest)
      = sh_read 3 Unquoted (Some (word_of None @ config_file, q)) [Word ''cg'', Word ''-c''] rest"
    using sh_read_shlex_quote [of "[Word ''cg'', Word ''-c'']" 3 None config_file rest]
    by auto
  have "rest = [] \<or> hd rest = CHR '' ''"
    unfolding rest_def using rstrip_keeps_head [of isspace "CHR '' ''" "?flag @ '' '' @ cmd"]
    by simp
  then have "sh_read 3 Unquoted (Some (config_file, q)) [Word ''cg'', Word ''-c''] rest
      = Read ([Word ''cg'', Word ''-c''] @ [Word config_file], tl rest)"
    by (rule sh_read_word_end) simp
  with head path have "sh_tokens 3 (''cg -c '' @ shlex_quote config_file @ rest)
      = Read ([Word ''cg'', Word ''-c'', Word config_file], tl rest)"
    by (simp add: sh_tokens_def word_of_def)
  with line single show ?thesis
    by simp
qed

text \<open>
  A command text with a semicolon: the shell reads a control operator and a second
  command after it.
\<close>

theorem command_text_not_escaped:
  "sh_tokens 7 (cg_command ''c.toml'' True ''ls; reboot'')
     = Read ([Word ''cg'', Word ''-c'', Word ''c.toml'', Word ''--force-summary'',
              Word ''ls'', Op '';'', Word ''reboot''], [])"
  by code_simp

text \<open>
  A path with a blank, a semicolon and a command substitution, and a command text with
  a parameter expansion: the path is the third word, the command text is left as given.
\<close>

theorem config_path_escaped_witness:
  "sh_tokens 1 (shlex_quote ''my cfg; $(reboot).toml'')
     = Read ([Word ''my cfg; $(reboot).toml''], [])
   \<and> sh_tokens 3 (cg_command ''my cfg; $(reboot).toml'' True ''echo $HOME *.log'')
       = Read ([Word ''cg'', Word ''-c'', Word ''my cfg; $(reboot).toml''],
               ''--force-summary echo $HOME *.log'')"
proof -
  let ?rest = "rev (dropWhile isspace
      (rev ('' '' @ (if True then ''--force-summary'' else []) @ '' '' @ ''echo $HOME *.log'')))"
  have rest: "tl ?rest = ''--force-summary echo $HOME *.log''"
    by code_simp
  note t = config_path_escaped [of "''my cfg; $(reboot).toml''" True "''echo $HOME *.log''"]
  from t have path: "sh_tokens 1 (shlex_quote ''my cfg; $(reboot).toml'')
      = Read ([Word ''my cfg; $(reboot).toml''], [])"
    by (rule conjunct1)
  from t have "sh_tokens 3 (cg_command ''my cfg; $(reboot).toml'' True ''echo $HOME *.log'')
      = Read ([Word ''cg'', Word ''-c'', Word ''my cfg; $(reboot).toml''], tl ?rest)"
    by (rule conjunct2 [THEN conjunct2])
  then have line: "sh_tokens 3 (cg_command ''my cfg; $(reboot).toml'' True ''echo $HOME *.log'')
      = Read ([Word ''cg'', Word ''-c'', Word ''my cfg; $(reboot).toml''],
               ''--force-summary echo $HOME *.log'')"
    unfolding rest .
  from path line show ?thesis
    by (rule conjI)
qed

end
